theory Spec2Isabelle
  imports Main "HOL-Library.Sublist"
begin

section \<open>Data model of workflows-go (src/main.go)\<close>

text \<open>
  Go's \<^verbatim>\<open>any\<close>: the dynamically typed values that the package and its tests put into
  events, contexts and outputs (a struct is the list of its fields' values). \<open>AnyNil\<close>
  is the nil interface, the zero value of \<^verbatim>\<open>any\<close>.
\<close>

datatype any = AnyNil | AnyString string | AnyInt int | AnyBool bool | AnyStruct "any list"

text \<open>
  \<^verbatim>\<open>type BaseEvent struct { NextStep string; Data map[string]string }\<close>
  The package only ever reads \<open>Data\<close>; a nil map reads like an empty one.
\<close>

record BaseEvent =
  NextStep :: string
  Data :: "string \<rightharpoonup> string"

text \<open>
  A Go map is a reference to a map object, or nil. Map objects live in a heap, so that
  two fields can hold the same map.
\<close>

type_synonym addr = nat
type_synonym mapref = "addr option"
type_synonym heap = "addr \<Rightarrow> (string \<rightharpoonup> any)"

text \<open>\<^verbatim>\<open>type BaseContext struct { Store map[string]any; State map[string]any }\<close>\<close>

record BaseContext =
  Store :: mapref
  State :: mapref

text \<open>What a step function sees of the context it is handed: the struct and the heap.\<close>

type_synonym ctx_state = "BaseContext \<times> heap"

text \<open>
  \<^verbatim>\<open>func(*BaseEvent, *BaseContext) *BaseEvent\<close>: a step may change the context, and
  it may fail to return an event (it panics, or runs forever): that is \<open>None\<close>.
\<close>

type_synonym step_fn = "BaseEvent \<Rightarrow> ctx_state \<Rightarrow> (BaseEvent \<times> ctx_state) option"

text \<open>
  \<^verbatim>\<open>type BaseWorkflow struct { FirstStep string; Context *BaseContext; Steps map[string]func... }\<close>
  The step table is kept as a list of its entries: \<^verbatim>\<open>range\<close> visits them in an
  order Go leaves open, which is the order of the list; a lookup is \<open>map_of\<close>.
\<close>

record BaseWorkflow =
  FirstStep :: string
  Context :: BaseContext
  Steps :: "(string \<times> step_fn) list"

text \<open>A runtime panic of Go.\<close>

datatype panic = AssignmentToEntryInNilMap

section \<open>Events\<close>

text \<open>
  \<^verbatim>\<open>val, success = ev.Data[key]\<close> with \<open>val\<close> of type \<^verbatim>\<open>any\<close>: on a missing key the
  map yields the zero value of its element type, the empty string.
\<close>

definition Get :: "BaseEvent \<Rightarrow> string \<Rightarrow> any \<times> bool" where
  "Get ev key = (case Data ev key of Some v \<Rightarrow> (AnyString v, True) | None \<Rightarrow> (AnyString '''', False))"

definition NewBaseEvent :: "string \<Rightarrow> (string \<rightharpoonup> string) \<Rightarrow> BaseEvent" where
  "NewBaseEvent followingStep data = \<lparr>NextStep = followingStep, Data = data\<rparr>"

section \<open>Contexts\<close>

text \<open>The entries of the map a reference points to; the nil map has none.\<close>

definition entries :: "heap \<Rightarrow> mapref \<Rightarrow> (string \<rightharpoonup> any)" where
  "entries h r = (case r of None \<Rightarrow> Map.empty | Some a \<Rightarrow> h a)"

definition NewBaseContext :: "mapref \<Rightarrow> mapref \<Rightarrow> BaseContext" where
  "NewBaseContext store state = \<lparr>Store = store, State = state\<rparr>"

text \<open>\<^verbatim>\<open>ctx.Store[key] = val\<close>: writes into the map object; panics on the nil map.\<close>

definition StoreValue :: "BaseContext \<Rightarrow> string \<Rightarrow> any \<Rightarrow> heap \<Rightarrow> panic + heap" where
  "StoreValue ctx key val h =
     (case Store ctx of
        None \<Rightarrow> Inl AssignmentToEntryInNilMap
      | Some a \<Rightarrow> Inr (h(a := (h a)(key \<mapsto> val))))"

text \<open>\<^verbatim>\<open>val, success = ctx.Store[key]\<close>: the zero value of \<^verbatim>\<open>any\<close> is nil.\<close>

definition GetValue :: "BaseContext \<Rightarrow> string \<Rightarrow> heap \<Rightarrow> any \<times> bool" where
  "GetValue ctx key h =
     (case entries h (Store ctx) key of Some v \<Rightarrow> (v, True) | None \<Rightarrow> (AnyNil, False))"

definition GetState :: "BaseContext \<Rightarrow> mapref" where
  "GetState ctx = State ctx"

text \<open>\<^verbatim>\<open>ctx.State = state\<close>: the field is pointed at another map; no map object changes.\<close>

definition SetState :: "BaseContext \<Rightarrow> mapref \<Rightarrow> BaseContext" where
  "SetState ctx state = ctx\<lparr>State := state\<rparr>"

section \<open>Workflows\<close>

definition NewBaseWorkflow :: "string \<Rightarrow> BaseContext \<Rightarrow> (string \<times> step_fn) list \<Rightarrow> BaseWorkflow" where
  "NewBaseWorkflow firstStep ctx steps = \<lparr>FirstStep = firstStep, Context = ctx, Steps = steps\<rparr>"

definition reserved_error :: string where
  "reserved_error = ''`end` is a reserved keyword, you cannot use it as a name for your steps''"

text \<open>The loop \<^verbatim>\<open>for k := range wf.Steps\<close>, over the keys in the order they are visited.\<close>

fun Validate_range :: "string list \<Rightarrow> bool \<times> string option" where
  "Validate_range [] = (True, None)"
| "Validate_range (k # ks) =
     (if k = ''end'' then (False, Some reserved_error) else Validate_range ks)"

definition Validate :: "BaseWorkflow \<Rightarrow> bool \<times> string option" where
  "Validate w = Validate_range (map fst (Steps w))"

text \<open>\<^verbatim>\<open>fmt.Sprintf("There was an error while executing step %s: the step does not exist", stepName)\<close>\<close>

definition missing_step_message :: "string \<Rightarrow> string" where
  "missing_step_message stepName =
     ''There was an error while executing step '' @ stepName @ '': the step does not exist''"

definition TakeStep :: "BaseWorkflow \<Rightarrow> string \<Rightarrow> BaseEvent \<Rightarrow> ctx_state \<Rightarrow> (BaseEvent \<times> ctx_state) option" where
  "TakeStep w stepName ev ctx =
     (case map_of (Steps w) stepName of
        None \<Rightarrow> Some (NewBaseEvent ''end'' [''output'' \<mapsto> missing_step_message stepName], ctx)
      | Some step \<Rightarrow> step ev ctx)"

definition Output :: "BaseWorkflow \<Rightarrow> BaseEvent \<Rightarrow> ctx_state \<Rightarrow> any" where
  "Output w ev ctx =
     (if NextStep ev = ''end'' then
        (case Get ev ''output'' of
           (output, ok) \<Rightarrow> if ok then output else AnyString ''No output produced'')
      else AnyString ''Not an output step'')"


text \<open>
  The callbacks of \<open>Run\<close> are the caller's functions. A \<^verbatim>\<open>func(*BaseEvent)\<close> is handed
  the pointer to the very event whose \<open>NextStep\<close> the loop reads next, so it may change
  the event; as a closure it may reach the context and the caller's own state \<open>'o\<close>;
  and it may not return (a nil function value, a panic, an endless loop): \<open>None\<close>.
\<close>

type_synonym 'o event_callback =
  "BaseEvent \<Rightarrow> ctx_state \<Rightarrow> 'o \<Rightarrow> (BaseEvent \<times> ctx_state \<times> 'o) option"

type_synonym 'o output_callback =
  "any \<Rightarrow> ctx_state \<Rightarrow> 'o \<Rightarrow> (ctx_state \<times> 'o) option"

text \<open>
  The body of \<^verbatim>\<open>for { ... }\<close> in \<open>Run\<close>, entered with the current event. The loop has
  no exit but the \<^verbatim>\<open>break\<close>, so it may not return: that is \<open>None\<close>.
\<close>

partial_function (option) Run_loop ::
  "BaseWorkflow \<Rightarrow> 'o event_callback \<Rightarrow> 'o event_callback \<Rightarrow> 'o output_callback \<Rightarrow>
   BaseEvent \<Rightarrow> ctx_state \<Rightarrow> 'o \<Rightarrow> (ctx_state \<times> 'o) option" where
  "Run_loop w onEventStartCallBack onEventEndCallBack onOutputCallBack event ctx obs =
     (case onEventStartCallBack event ctx obs of
        None \<Rightarrow> None
      | Some (event1, ctx1, obs1) \<Rightarrow>
          if NextStep event1 = ''end'' then
            onOutputCallBack (Output w event1 ctx1) ctx1 obs1
          else
            (case TakeStep w (NextStep event1) event1 ctx1 of
               None \<Rightarrow> None
             | Some (event2, ctx2) \<Rightarrow>
                 (case onEventEndCallBack event2 ctx2 obs1 of
                    None \<Rightarrow> None
                  | Some (event3, ctx3, obs2) \<Rightarrow>
                      Run_loop w onEventStartCallBack onEventEndCallBack onOutputCallBack
                        event3 ctx3 obs2)))"

definition Run ::
  "BaseWorkflow \<Rightarrow> BaseEvent \<Rightarrow> ctx_state \<Rightarrow> 'o event_callback \<Rightarrow> 'o event_callback \<Rightarrow>
   'o output_callback \<Rightarrow> 'o \<Rightarrow> (ctx_state \<times> 'o) option" where
  "Run w inputEvent ctx onEventStartCallBack onEventEndCallBack onOutputCallBack obs =
     (case TakeStep w (FirstStep w) inputEvent ctx of
        None \<Rightarrow> None
      | Some (event, ctx') \<Rightarrow>
          Run_loop w onEventStartCallBack onEventEndCallBack onOutputCallBack event ctx' obs)"

section \<open>What a run does, as a sequence\<close>

text \<open>
  A callback that only observes: on every event, context and state of the caller it
  returns, and it leaves the event and the context as they were.
\<close>

definition observes :: "'o event_callback \<Rightarrow> bool" where
  "observes cb = (\<forall>ev c obs. \<exists>obs'. cb ev c obs = Some (ev, c, obs'))"

definition observes_output :: "'o output_callback \<Rightarrow> bool" where
  "observes_output cb = (\<forall>v c obs. \<exists>obs'. cb v c obs = Some (c, obs'))"

text \<open>One call of a callback of \<open>Run\<close>: its argument, and the context at the time.\<close>

datatype callback =
  OnEventStart BaseEvent ctx_state | OnEventEnd BaseEvent ctx_state | OnOutput any ctx_state

text \<open>What one call leaves of the caller's state.\<close>

fun perform :: "'o event_callback \<Rightarrow> 'o event_callback \<Rightarrow> 'o output_callback \<Rightarrow>
    'o \<Rightarrow> callback \<Rightarrow> 'o" where
  "perform onS onE onO obs (OnEventStart e c) =
     (case onS e c obs of None \<Rightarrow> obs | Some (e', c', obs') \<Rightarrow> obs')"
| "perform onS onE onO obs (OnEventEnd e c) =
     (case onE e c obs of None \<Rightarrow> obs | Some (e', c', obs') \<Rightarrow> obs')"
| "perform onS onE onO obs (OnOutput v c) =
     (case onO v c obs of None \<Rightarrow> obs | Some (c', obs') \<Rightarrow> obs')"

text \<open>
  \<open>dispatches w e c ps c'\<close>: starting with the event \<open>e\<close> and the context \<open>c\<close>, the
  events produced one after the other, each with the context it was produced in, are
  \<open>ps\<close> (\<open>(e, c)\<close> first): each event but the last names a next step other than \<open>end\<close>
  and \<open>TakeStep\<close> on it gives the following pair, the last names \<open>end\<close>, and the
  context is then \<open>c'\<close>.
\<close>

fun dispatches ::
  "BaseWorkflow \<Rightarrow> BaseEvent \<Rightarrow> ctx_state \<Rightarrow> (BaseEvent \<times> ctx_state) list \<Rightarrow> ctx_state \<Rightarrow> bool" where
  "dispatches w e c [] c' = False"
| "dispatches w e c [p] c' = (p = (e, c) \<and> NextStep e = ''end'' \<and> c' = c)"
| "dispatches w e c (p # q # ps) c' =
     (p = (e, c) \<and> NextStep e \<noteq> ''end'' \<and>
      (case TakeStep w (NextStep e) e c of
         None \<Rightarrow> False
       | Some (e', c'') \<Rightarrow> dispatches w e' c'' (q # ps) c'))"

text \<open>
  The calls the specification expects for the produced events \<open>ps\<close>: a start call for
  each event, an end call with the following event after each but the last, and the
  output call after the last.
\<close>

fun callback_sequence :: "BaseWorkflow \<Rightarrow> (BaseEvent \<times> ctx_state) list \<Rightarrow> callback list" where
  "callback_sequence w [] = []"
| "callback_sequence w [(e, c)] = [OnEventStart e c, OnOutput (Output w e c) c]"
| "callback_sequence w ((e, c) # (e', c') # ps) =
     OnEventStart e c # OnEventEnd e' c' # callback_sequence w ((e', c') # ps)"

fun start_events :: "callback list \<Rightarrow> BaseEvent list" where
  "start_events [] = []"
| "start_events (OnEventStart e c # cs) = e # start_events cs"
| "start_events (OnEventEnd e c # cs) = start_events cs"
| "start_events (OnOutput v c # cs) = start_events cs"

fun end_events :: "callback list \<Rightarrow> BaseEvent list" where
  "end_events [] = []"
| "end_events (OnEventStart e c # cs) = end_events cs"
| "end_events (OnEventEnd e c # cs) = e # end_events cs"
| "end_events (OnOutput v c # cs) = end_events cs"

fun outputs :: "callback list \<Rightarrow> any list" where
  "outputs [] = []"
| "outputs (OnEventStart e c # cs) = outputs cs"
| "outputs (OnEventEnd e c # cs) = outputs cs"
| "outputs (OnOutput v c # cs) = v # outputs cs"

text \<open>The event and the context after \<open>n\<close> more dispatches, each on the event before.\<close>

fun dispatch_n :: "BaseWorkflow \<Rightarrow> nat \<Rightarrow> BaseEvent \<Rightarrow> ctx_state \<Rightarrow> (BaseEvent \<times> ctx_state) option" where
  "dispatch_n w 0 e c = Some (e, c)"
| "dispatch_n w (Suc n) e c =
     (case TakeStep w (NextStep e) e c of
        None \<Rightarrow> None
      | Some (e', c') \<Rightarrow> dispatch_n w n e' c')"

section \<open>The workflows of the tests and of the end-to-end scenarios\<close>

text \<open>A heap whose map objects are all empty, and a context on two of them.\<close>

definition empty_heap :: heap where
  "empty_heap = (\<lambda>a. Map.empty)"

definition empty_ctx :: ctx_state where
  "empty_ctx = (NewBaseContext (Some 0) (Some 1), empty_heap)"

text \<open>\<^verbatim>\<open>mockStep\<close> of the test file.\<close>

definition mockStep :: step_fn where
  "mockStep ev ctx = Some (NewBaseEvent ''end'' [''output'' \<mapsto> ''hello world''], ctx)"

definition mock_event :: BaseEvent where
  "mock_event = NewBaseEvent ''mockEvent'' [''mock'' \<mapsto> ''event'']"

text \<open>A step that hands over to the step \<open>s2\<close>, and one that names itself.\<close>

definition toS2 :: step_fn where
  "toS2 ev ctx = Some (NewBaseEvent ''s2'' [''from'' \<mapsto> ''s1''], ctx)"

definition loopStep :: step_fn where
  "loopStep ev ctx = Some (NewBaseEvent ''s1'' [''again'' \<mapsto> ''s1''], ctx)"

definition hello_workflow :: BaseWorkflow where
  "hello_workflow = NewBaseWorkflow ''s1'' (fst empty_ctx) [(''s1'', mockStep)]"

definition chain_workflow :: BaseWorkflow where
  "chain_workflow = NewBaseWorkflow ''s1'' (fst empty_ctx) [(''s1'', toS2), (''s2'', mockStep)]"

definition loop_workflow :: BaseWorkflow where
  "loop_workflow = NewBaseWorkflow ''s1'' (fst empty_ctx) [(''s1'', loopStep)]"

definition reserved_workflow :: BaseWorkflow where
  "reserved_workflow = NewBaseWorkflow ''s1'' (fst empty_ctx) [(''s1'', toS2), (''end'', mockStep)]"

text \<open>A workflow whose first step, and whose step's next step, are not in the table.\<close>

definition dangling_workflow :: BaseWorkflow where
  "dangling_workflow = NewBaseWorkflow ''nowhere'' (fst empty_ctx) [(''s1'', toS2)]"


text \<open>
  Recording callbacks, after those of the test: three slices, of the started events'
  next steps, of the ended events' next steps, and of the outputs.
\<close>

type_synonym recorded = "string list \<times> string list \<times> any list"

definition startEventCallBack :: "recorded event_callback" where
  "startEventCallBack ev c r = (case r of (s, e, out) \<Rightarrow> Some (ev, c, (s @ [NextStep ev], e, out)))"

definition endEventCallBack :: "recorded event_callback" where
  "endEventCallBack ev c r = (case r of (s, e, out) \<Rightarrow> Some (ev, c, (s, e @ [NextStep ev], out)))"

definition outputCallBack :: "recorded output_callback" where
  "outputCallBack v c r = (case r of (s, e, out) \<Rightarrow> Some (c, (s, e, out @ [v])))"

definition no_calls :: recorded where
  "no_calls = ([], [], [])"

text \<open>
  Callbacks that do more than observe. The first records like \<open>startEventCallBack\<close> and,
  on its first call only, sets the \<open>NextStep\<close> of the event it is handed back to \<open>s1\<close>;
  the second records and sets \<open>NextStep\<close> to \<open>end\<close>; the third is the nil function
  value, whose call panics.
\<close>

definition restartingStartCallBack :: "recorded event_callback" where
  "restartingStartCallBack ev c r =
     (case r of (s, e, out) \<Rightarrow>
        Some (if s = [] then ev\<lparr>NextStep := ''s1''\<rparr> else ev, c, (s @ [NextStep ev], e, out)))"

definition endingStartCallBack :: "recorded event_callback" where
  "endingStartCallBack ev c r =
     (case r of (s, e, out) \<Rightarrow> Some (ev\<lparr>NextStep := ''end''\<rparr>, c, (s @ [NextStep ev], e, out)))"

definition nilCallBack :: "recorded event_callback" where
  "nilCallBack ev c r = None"

section \<open>Lemmas on the dispatch loop\<close>

lemma dispatches_first: "dispatches w e c ps c' \<Longrightarrow> \<exists>ps'. ps = (e, c) # ps'"
  by (cases "(w, e, c, ps, c')" rule: dispatches.cases) auto

lemma dispatches_last_end: "dispatches w e c ps c' \<Longrightarrow> NextStep (fst (last ps)) = ''end''"
  by (induction w e c ps c' rule: dispatches.induct) (auto split: option.splits)

lemma dispatches_last_ctx: "dispatches w e c ps c' \<Longrightarrow> snd (last ps) = c'"
  by (induction w e c ps c' rule: dispatches.induct) (auto split: option.splits)

lemma callback_sequence_starts: "start_events (callback_sequence w ps) = map fst ps"
  by (induction w ps rule: callback_sequence.induct) auto

lemma callback_sequence_ends: "end_events (callback_sequence w ps) = tl (map fst ps)"
  by (induction w ps rule: callback_sequence.induct) auto

lemma callback_sequence_outputs:
  "ps \<noteq> [] \<Longrightarrow> outputs (callback_sequence w ps) = [Output w (fst (last ps)) (snd (last ps))]"
  by (induction w ps rule: callback_sequence.induct) auto

text \<open>What a call of an observing callback returns.\<close>

lemma observes_start:
  "observes onS \<Longrightarrow> onS e c obs = Some (e, c, perform onS onE onO obs (OnEventStart e c))"
proof -
  assume "observes onS"
  then obtain obs' where "onS e c obs = Some (e, c, obs')"
    unfolding observes_def by blast
  then show ?thesis by simp
qed

lemma observes_end:
  "observes onE \<Longrightarrow> onE e c obs = Some (e, c, perform onS onE onO obs (OnEventEnd e c))"
proof -
  assume "observes onE"
  then obtain obs' where "onE e c obs = Some (e, c, obs')"
    unfolding observes_def by blast
  then show ?thesis by simp
qed

lemma observes_output_call:
  "observes_output onO \<Longrightarrow> onO v c obs = Some (c, perform onS onE onO obs (OnOutput v c))"
proof -
  assume "observes_output onO"
  then obtain obs' where "onO v c obs = Some (c, obs')"
    unfolding observes_output_def by blast
  then show ?thesis by simp
qed

text \<open>One turn of the loop, with observing callbacks.\<close>

lemma Run_loop_end:
  assumes "observes onS" and "observes_output onO" and "NextStep e = ''end''"
  shows "Run_loop w onS onE onO e c obs =
    Some (c, perform onS onE onO (perform onS onE onO obs (OnEventStart e c))
               (OnOutput (Output w e c) c))"
  using assms(3)
  by (subst Run_loop.simps)
    (simp add: observes_start [OF assms(1), of e c obs onE onO]
      observes_output_call [OF assms(2), of _ _ _ onS onE] del: perform.simps)

lemma Run_loop_step:
  assumes "observes onS" and "observes onE" and "NextStep e \<noteq> ''end''"
  shows "Run_loop w onS onE onO e c obs =
    (case TakeStep w (NextStep e) e c of
       None \<Rightarrow> None
     | Some (e', c') \<Rightarrow>
         Run_loop w onS onE onO e' c'
           (perform onS onE onO (perform onS onE onO obs (OnEventStart e c)) (OnEventEnd e' c')))"
  using assms(3)
  by (subst Run_loop.simps)
    (simp add: observes_start [OF assms(1), of e c obs onE onO]
      observes_end [OF assms(2), of _ _ _ onS onO] del: perform.simps split: option.splits)

text \<open>With observing callbacks the loop follows the produced events, and makes the
  expected calls in order.\<close>

lemma Run_loop_complete:
  assumes oS: "observes onS" and oE: "observes onE" and oO: "observes_output onO"
  shows "dispatches w e c ps c' \<Longrightarrow>
   Run_loop w onS onE onO e c obs =
     Some (c', foldl (perform onS onE onO) obs (callback_sequence w ps))"
proof (induction w e c ps c' arbitrary: obs rule: dispatches.induct)
  case (1 w e c c')
  then show ?case by simp
next
  case (2 w e c p c')
  then show ?case
    by (simp add: Run_loop_end [OF oS oO] del: perform.simps)
next
  case (3 w e c p q ps c')
  from "3.prems" obtain e' c'' where
    p: "p = (e, c)" and notend: "NextStep e \<noteq> ''end''" and
    step: "TakeStep w (NextStep e) e c = Some (e', c'')" and
    rest: "dispatches w e' c'' (q # ps) c'"
    by (auto split: option.splits)
  from rest have q: "q = (e', c'')"
    using dispatches_first by fastforce
  have "Run_loop w onS onE onO e' c''
      (perform onS onE onO (perform onS onE onO obs (OnEventStart e c)) (OnEventEnd e' c'')) =
      Some (c', foldl (perform onS onE onO)
        (perform onS onE onO (perform onS onE onO obs (OnEventStart e c)) (OnEventEnd e' c''))
        (callback_sequence w (q # ps)))"
    using "3.IH" [OF step refl rest] .
  then show ?case
    by (simp add: Run_loop_step [OF oS oE notend] step p q del: perform.simps)
qed

text \<open>Whenever the loop returns, with observing callbacks, it has followed such a
  sequence of events.\<close>

lemma Run_loop_sound:
  assumes "Run_loop w onS onE onO e c obs = Some r"
  shows "observes onS \<longrightarrow> observes onE \<longrightarrow> observes_output onO \<longrightarrow>
      (\<exists>ps. dispatches w e c ps (fst r) \<and>
        snd r = foldl (perform onS onE onO) obs (callback_sequence w ps))"
  using assms
proof (rule Run_loop.raw_induct [rotated, where P = "\<lambda>w onS onE onO e c obs r.
    observes onS \<longrightarrow> observes onE \<longrightarrow> observes_output onO \<longrightarrow>
      (\<exists>ps. dispatches w e c ps (fst r) \<and>
        snd r = foldl (perform onS onE onO) obs (callback_sequence w ps))"])
  fix run :: "BaseWorkflow \<Rightarrow> 'a event_callback \<Rightarrow> 'a event_callback \<Rightarrow> 'a output_callback \<Rightarrow>
      BaseEvent \<Rightarrow> ctx_state \<Rightarrow> 'a \<Rightarrow> (ctx_state \<times> 'a) option"
    and w onS onE onO e c obs r
  assume IH: "\<And>w onS onE onO e c obs r. run w onS onE onO e c obs = Some r \<Longrightarrow>
      observes onS \<longrightarrow> observes onE \<longrightarrow> observes_output onO \<longrightarrow>
      (\<exists>ps. dispatches w e c ps (fst r) \<and>
        snd r = foldl (perform onS onE onO) obs (callback_sequence w ps))"
    and body: "(case onS e c obs of
        None \<Rightarrow> None
      | Some (event1, ctx1, obs1) \<Rightarrow>
          if NextStep event1 = ''end'' then onO (Output w event1 ctx1) ctx1 obs1
          else (case TakeStep w (NextStep event1) event1 ctx1 of
               None \<Rightarrow> None
             | Some (event2, ctx2) \<Rightarrow>
                 (case onE event2 ctx2 obs1 of
                    None \<Rightarrow> None
                  | Some (event3, ctx3, obs2) \<Rightarrow> run w onS onE onO event3 ctx3 obs2))) = Some r"
  show "observes onS \<longrightarrow> observes onE \<longrightarrow> observes_output onO \<longrightarrow>
      (\<exists>ps. dispatches w e c ps (fst r) \<and>
        snd r = foldl (perform onS onE onO) obs (callback_sequence w ps))"
  proof (intro impI)
    assume oS: "observes onS" and oE: "observes onE" and oO: "observes_output onO"
    let ?obs1 = "perform onS onE onO obs (OnEventStart e c)"
    note start = observes_start [OF oS, of e c obs onE onO]
    show "\<exists>ps. dispatches w e c ps (fst r) \<and>
        snd r = foldl (perform onS onE onO) obs (callback_sequence w ps)"
    proof (cases "NextStep e = ''end''")
      case True
      with body start have "onO (Output w e c) c ?obs1 = Some r"
        by (simp del: perform.simps)
      with observes_output_call [OF oO, of "Output w e c" c ?obs1 onS onE]
      have "r = (c, perform onS onE onO ?obs1 (OnOutput (Output w e c) c))"
        by (simp del: perform.simps)
      with True show ?thesis
        by (intro exI [of _ "[(e, c)]"]) (simp del: perform.simps)
    next
      case False
      with body start obtain e' c' where
        step: "TakeStep w (NextStep e) e c = Some (e', c')" and
        rest0: "(case onE e' c' ?obs1 of None \<Rightarrow> None
            | Some (event3, ctx3, obs2) \<Rightarrow> run w onS onE onO event3 ctx3 obs2) = Some r"
        by (auto simp del: perform.simps split: option.splits)
      let ?obs2 = "perform onS onE onO ?obs1 (OnEventEnd e' c')"
      from rest0 observes_end [OF oE, of e' c' ?obs1 onS onO]
      have rest: "run w onS onE onO e' c' ?obs2 = Some r"
        by (simp del: perform.simps)
      from IH [OF rest] oS oE oO obtain ps where
        d: "dispatches w e' c' ps (fst r)" and
        o: "snd r = foldl (perform onS onE onO) ?obs2 (callback_sequence w ps)"
        by blast
      from d obtain ps' where ps: "ps = (e', c') # ps'"
        using dispatches_first by blast
      have "dispatches w e c ((e, c) # ps) (fst r)"
        using False step d by (simp add: ps)
      moreover have "snd r = foldl (perform onS onE onO) obs (callback_sequence w ((e, c) # ps))"
        using o by (simp add: ps del: perform.simps)
      ultimately show ?thesis by blast
    qed
  qed
qed

text \<open>A sequence of produced events that ends, against the plain iteration of dispatches.\<close>

lemma dispatches_dispatch_n:
  "dispatches w e c ps c' \<Longrightarrow> dispatch_n w (length ps - 1) e c = Some (fst (last ps), c')"
proof (induction w e c ps c' rule: dispatches.induct)
  case (3 w e c p q ps c')
  then show ?case by (auto split: option.splits)
qed auto

lemma dispatch_n_dispatches:
  "dispatch_n w n e c = Some (e', c') \<Longrightarrow> NextStep e' = ''end'' \<Longrightarrow>
   \<exists>ps c''. dispatches w e c ps c''"
proof (induction n arbitrary: e c)
  case 0
  then have "dispatches w e c [(e, c)] c" by simp
  then show ?case by blast
next
  case (Suc n)
  show ?case
  proof (cases "NextStep e = ''end''")
    case True
    then have "dispatches w e c [(e, c)] c" by simp
    then show ?thesis by blast
  next
    case False
    from Suc.prems(1) obtain e1 c1 where
      step: "TakeStep w (NextStep e) e c = Some (e1, c1)" and
      rest: "dispatch_n w n e1 c1 = Some (e', c')"
      by (auto split: option.splits)
    from Suc.IH [OF rest Suc.prems(2)] obtain ps c'' where d: "dispatches w e1 c1 ps c''"
      by blast
    from d obtain ps' where ps: "ps = (e1, c1) # ps'"
      using dispatches_first by blast
    have "dispatches w e c ((e, c) # ps) c''"
      using False step d by (simp add: ps)
    then show ?thesis by blast
  qed
qed

lemma returns_iff_chain_ends:
  assumes oS: "observes onS" and oE: "observes onE" and oO: "observes_output onO"
  shows "(\<exists>r. Run w inputEvent ctx onS onE onO obs = Some r) =
   (\<exists>e1 c1 n e c. TakeStep w (FirstStep w) inputEvent ctx = Some (e1, c1) \<and>
      dispatch_n w n e1 c1 = Some (e, c) \<and> NextStep e = ''end'')"
proof
  assume "\<exists>r. Run w inputEvent ctx onS onE onO obs = Some r"
  then obtain r e1 c1 where
    first: "TakeStep w (FirstStep w) inputEvent ctx = Some (e1, c1)" and
    loop: "Run_loop w onS onE onO e1 c1 obs = Some r"
    by (auto simp: Run_def split: option.splits)
  from Run_loop_sound [OF loop] oS oE oO obtain ps where d: "dispatches w e1 c1 ps (fst r)"
    by blast
  from first dispatches_dispatch_n [OF d] dispatches_last_end [OF d]
  show "\<exists>e1 c1 n e c. TakeStep w (FirstStep w) inputEvent ctx = Some (e1, c1) \<and>
      dispatch_n w n e1 c1 = Some (e, c) \<and> NextStep e = ''end''"
    by blast
next
  assume "\<exists>e1 c1 n e c. TakeStep w (FirstStep w) inputEvent ctx = Some (e1, c1) \<and>
      dispatch_n w n e1 c1 = Some (e, c) \<and> NextStep e = ''end''"
  then obtain e1 c1 n e c where
    first: "TakeStep w (FirstStep w) inputEvent ctx = Some (e1, c1)" and
    nth: "dispatch_n w n e1 c1 = Some (e, c)" and fin: "NextStep e = ''end''"
    by blast
  from dispatch_n_dispatches [OF nth fin] obtain ps c'' where "dispatches w e1 c1 ps c''"
    by blast
  from Run_loop_complete [OF oS oE oO this, of obs] first
  show "\<exists>r. Run w inputEvent ctx onS onE onO obs = Some r"
    by (simp add: Run_def)
qed

lemma Validate_range_fails:
  "(Validate_range ks = (False, Some reserved_error)) = (''end'' \<in> set ks)"
  by (induction ks) auto

lemma Validate_range_succeeds:
  "(Validate_range ks = (True, None)) = (''end'' \<notin> set ks)"
  by (induction ks) auto

lemma missing_step_message_mentions:
  "sublist stepName (missing_step_message stepName)"
  unfolding missing_step_message_def by (rule sublist_appendI)

lemma loop_workflow_TakeStep:
  "TakeStep loop_workflow ''s1'' e c = Some (NewBaseEvent ''s1'' [''again'' \<mapsto> ''s1''], c)"
  by (simp add: TakeStep_def loop_workflow_def NewBaseWorkflow_def loopStep_def)

lemma loop_workflow_stays:
  "NextStep e = ''s1'' \<Longrightarrow>
   \<exists>e' c'. dispatch_n loop_workflow n e c = Some (e', c') \<and> NextStep e' = ''s1''"
proof (induction n arbitrary: e c)
  case 0
  then show ?case by simp
next
  case (Suc n)
  have "NextStep (NewBaseEvent ''s1'' [''again'' \<mapsto> ''s1'']) = ''s1''"
    by (simp add: NewBaseEvent_def)
  from Suc.IH [OF this, of c] show ?case
    by (simp add: Suc.prems loop_workflow_TakeStep)
qed

lemma loop_workflow_chain_never_ends:
  "\<not> (\<exists>n e c. dispatch_n loop_workflow n (NewBaseEvent ''s1'' [''again'' \<mapsto> ''s1'']) c1 = Some (e, c) \<and>
        NextStep e = ''end'')"
proof
  assume "\<exists>n e c. dispatch_n loop_workflow n (NewBaseEvent ''s1'' [''again'' \<mapsto> ''s1'']) c1 = Some (e, c) \<and>
        NextStep e = ''end''"
  then obtain n e c where
    nth: "dispatch_n loop_workflow n (NewBaseEvent ''s1'' [''again'' \<mapsto> ''s1'']) c1 = Some (e, c)"
    and fin: "NextStep e = ''end''"
    by blast
  have "NextStep (NewBaseEvent ''s1'' [''again'' \<mapsto> ''s1'']) = ''s1''"
    by (simp add: NewBaseEvent_def)
  from loop_workflow_stays [OF this, of n c1] nth fin show False
    by simp
qed

lemma loop_workflow_never_returns:
  assumes oS: "observes onS" and oE: "observes onE" and oO: "observes_output onO"
  shows "Run loop_workflow inputEvent ctx onS onE onO obs = None"
proof (rule ccontr)
  assume "Run loop_workflow inputEvent ctx onS onE onO obs \<noteq> None"
  then have "\<exists>r. Run loop_workflow inputEvent ctx onS onE onO obs = Some r"
    by auto
  then obtain e1 c1 n e c where
    first: "TakeStep loop_workflow (FirstStep loop_workflow) inputEvent ctx = Some (e1, c1)" and
    nth: "dispatch_n loop_workflow n e1 c1 = Some (e, c)" and fin: "NextStep e = ''end''"
    unfolding returns_iff_chain_ends [OF oS oE oO] by blast
  have "FirstStep loop_workflow = ''s1''"
    by (simp add: loop_workflow_def NewBaseWorkflow_def)
  with first have "e1 = NewBaseEvent ''s1'' [''again'' \<mapsto> ''s1'']"
    by (auto simp: loop_workflow_TakeStep)
  with nth fin loop_workflow_chain_never_ends [of c1] show False
    by blast
qed

lemma recording_callbacks_observe:
  "observes startEventCallBack \<and> observes endEventCallBack \<and> observes_output outputCallBack"
  by (auto simp: observes_def observes_output_def startEventCallBack_def endEventCallBack_def
      outputCallBack_def)

section \<open>Events: \<open>Get\<close>\<close>

text \<open>
  Claim C6. For every event and every key: when the key is in the payload, \<open>Get\<close>
  returns the stored value and true; when it is not, \<open>Get\<close> returns the zero value
  (of the payload's values, the empty string) and false. \<open>Get\<close> is a function of the
  event and the key alone and returns nothing but this pair: it raises no error and
  leaves the event as it is.
\<close>

theorem Get_lookup:
  "(Data ev k = Some v \<longrightarrow> Get ev k = (AnyString v, True)) \<and>
   (Data ev k = None \<longrightarrow> Get ev k = (AnyString '''', False))"
  by (simp add: Get_def)

theorem Get_lookup_witness:
  "Get (NewBaseEvent ''step1'' [''key'' \<mapsto> ''hello'']) ''key'' = (AnyString ''hello'', True) \<and>
   Get (NewBaseEvent ''step1'' [''key'' \<mapsto> ''hello'']) ''mock'' = (AnyString '''', False)"
  using Get_lookup [of "NewBaseEvent ''step1'' [''key'' \<mapsto> ''hello'']" "''key''" "''hello''"]
    Get_lookup [of "NewBaseEvent ''step1'' [''key'' \<mapsto> ''hello'']" "''mock''"]
  by (simp add: NewBaseEvent_def)

section \<open>Contexts: state and store\<close>

text \<open>
  Claim C7. A context built by \<open>NewBaseContext store state\<close> has \<open>GetState\<close> equal to
  \<open>state\<close>, the very map it was given; after \<open>SetState s2\<close>, \<open>GetState\<close> is \<open>s2\<close>,
  whatever the state was before, and its entries are those of \<open>s2\<close>: nothing is merged.
\<close>

theorem GetState_exact:
  "GetState (NewBaseContext store state) = state \<and>
   GetState (SetState ctx s2) = s2 \<and>
   entries h (GetState (SetState ctx s2)) = entries h s2"
  by (simp add: GetState_def NewBaseContext_def SetState_def)

theorem GetState_exact_witness:
  "GetState (NewBaseContext (Some 0) (Some 1)) = Some 1 \<and>
   GetState (SetState (NewBaseContext (Some 0) (Some 1)) (Some 2)) = Some 2 \<and>
   GetState (SetState (NewBaseContext (Some 0) (Some 1)) None) = None"
  using GetState_exact [of "Some 0" "Some 1" "NewBaseContext (Some 0) (Some 1)" "Some 2"]
    GetState_exact [of "Some 0" "Some 1" "NewBaseContext (Some 0) (Some 1)" None]
  by simp

text \<open>
  Claim C8, as stated, fails on a context whose store is the nil map (the zero value of
  the field, and what \<open>NewBaseContext\<close> keeps when it is handed nil): \<open>StoreValue\<close>
  panics there, the key was absent, and no entry is created.
\<close>

theorem StoreValue_nil_store_counterexample:
  "StoreValue (NewBaseContext None None) ''apiCredit'' (AnyInt 200) empty_heap
     = Inl AssignmentToEntryInNilMap \<and>
   GetValue (NewBaseContext None None) ''apiCredit'' empty_heap = (AnyNil, False)"
  by (simp add: StoreValue_def GetValue_def NewBaseContext_def entries_def)

text \<open>
  Claim C8, amended. For every context whose store is not the nil map, every key and
  every value: \<open>StoreValue\<close> returns, and \<open>GetValue\<close> of the key is then the value and
  true, whether the key was there before or not. On a nil store \<open>StoreValue\<close> panics.
  \<open>GetValue\<close> never fails: on a key that is absent it returns nil and false.
\<close>

theorem StoreValue_GetValue:
  "(Store ctx \<noteq> None \<longrightarrow>
      (\<exists>h'. StoreValue ctx k v h = Inr h' \<and> GetValue ctx k h' = (v, True))) \<and>
   (Store ctx = None \<longrightarrow> StoreValue ctx k v h = Inl AssignmentToEntryInNilMap) \<and>
   (entries h (Store ctx) k = None \<longrightarrow> GetValue ctx k h = (AnyNil, False))"
  by (auto simp: StoreValue_def GetValue_def entries_def)

theorem StoreValue_GetValue_witness:
  "(\<exists>h'. StoreValue (NewBaseContext (Some 0) (Some 1)) ''apiCredit'' (AnyInt 200) empty_heap = Inr h' \<and>
      GetValue (NewBaseContext (Some 0) (Some 1)) ''apiCredit'' h' = (AnyInt 200, True)) \<and>
   StoreValue (NewBaseContext None (Some 1)) ''apiCredit'' (AnyInt 200) empty_heap
     = Inl AssignmentToEntryInNilMap \<and>
   GetValue (NewBaseContext (Some 0) (Some 1)) ''apiCredit'' empty_heap = (AnyNil, False)"
  using StoreValue_GetValue [of "NewBaseContext (Some 0) (Some 1)" "''apiCredit''" "AnyInt 200" empty_heap]
    StoreValue_GetValue [of "NewBaseContext None (Some 1)" "''apiCredit''" "AnyInt 200" empty_heap]
  by (simp add: NewBaseContext_def entries_def empty_heap_def)

text \<open>
  Claim C9, as stated, fails on a context built on one map for both fields, as
  \<open>NewBaseContext m m\<close> does: the fields hold the same map object, and \<open>StoreValue\<close>
  writes the entry into the state as well.
\<close>

theorem StoreValue_shared_map_counterexample:
  "StoreValue (NewBaseContext (Some 0) (Some 0)) ''k'' (AnyInt 1) empty_heap
     = Inr (empty_heap(0 := [''k'' \<mapsto> AnyInt 1])) \<and>
   entries empty_heap (GetState (NewBaseContext (Some 0) (Some 0))) ''k'' = None \<and>
   entries (empty_heap(0 := [''k'' \<mapsto> AnyInt 1])) (GetState (NewBaseContext (Some 0) (Some 0))) ''k''
     = Some (AnyInt 1)"
  by (simp add: StoreValue_def NewBaseContext_def GetState_def entries_def empty_heap_def)

text \<open>
  Claim C9, amended. For every context whose store and state are not the same map:
  a \<open>StoreValue\<close> that returns leaves the entries of the state as they were. For every
  context and every replacement map, \<open>SetState\<close> leaves the store field and the entries
  of the store as they were, and the state is the replacement alone. \<open>GetValue\<close> and
  \<open>GetState\<close> return a value and no context or heap: they write nothing.
\<close>

theorem store_state_frame:
  "(Store ctx \<noteq> State ctx \<longrightarrow> StoreValue ctx k v h = Inr h' \<longrightarrow>
      entries h' (State ctx) = entries h (State ctx)) \<and>
   Store (SetState ctx s) = Store ctx \<and>
   entries h (Store (SetState ctx s)) = entries h (Store ctx) \<and>
   State (SetState ctx s) = s"
  by (auto simp: StoreValue_def SetState_def entries_def split: option.splits)

theorem store_state_frame_witness:
  "StoreValue (NewBaseContext (Some 0) (Some 1)) ''k'' (AnyInt 1) empty_heap
     = Inr (empty_heap(0 := [''k'' \<mapsto> AnyInt 1])) \<and>
   entries (empty_heap(0 := [''k'' \<mapsto> AnyInt 1])) (State (NewBaseContext (Some 0) (Some 1)))
     = entries empty_heap (State (NewBaseContext (Some 0) (Some 1))) \<and>
   Store (SetState (NewBaseContext (Some 0) (Some 1)) (Some 2)) = Some 0"
  using store_state_frame [of "NewBaseContext (Some 0) (Some 1)" "''k''" "AnyInt 1" empty_heap
      "empty_heap(0 := [''k'' \<mapsto> AnyInt 1])" "Some 2"]
  by (simp add: StoreValue_def NewBaseContext_def empty_heap_def)

section \<open>Workflows: \<open>Validate\<close>, \<open>TakeStep\<close>, \<open>Output\<close>\<close>

text \<open>
  Claim C3. \<open>Validate\<close> returns false and the error exactly when \<open>end\<close> is a key of the
  step table, and true and no error exactly when it is not, in whatever order the keys
  are visited. Nothing else is checked: the result is the same for any first step, and
  for any other step functions under the same keys.
\<close>

theorem Validate_iff:
  "(Validate w = (False, Some reserved_error)) = (''end'' \<in> fst ` set (Steps w)) \<and>
   (Validate w = (True, None)) = (''end'' \<notin> fst ` set (Steps w)) \<and>
   Validate (w\<lparr>FirstStep := f\<rparr>) = Validate w \<and>
   Validate (w\<lparr>Steps := map (\<lambda>(k, s). (k, g k s)) (Steps w)\<rparr>) = Validate w"
  by (simp add: Validate_def Validate_range_fails Validate_range_succeeds comp_def case_prod_unfold)

theorem Validate_iff_witness:
  "Validate hello_workflow = (True, None) \<and>
   Validate reserved_workflow = (False, Some reserved_error) \<and>
   Validate dangling_workflow = (True, None)"
  using Validate_iff [of hello_workflow] Validate_iff [of reserved_workflow]
    Validate_iff [of dangling_workflow]
  by (simp add: hello_workflow_def reserved_workflow_def dangling_workflow_def NewBaseWorkflow_def)

text \<open>
  Claim C2. For a step name that is not in the step table, \<open>TakeStep\<close> returns an event
  (and the context as it was): its next step is \<open>end\<close>, and its payload has the one key
  \<open>output\<close>, with a message that contains the name. For a name that is in the table,
  \<open>TakeStep\<close> is the call of that step function on the event and the context.
\<close>

theorem TakeStep_cases:
  "(map_of (Steps w) name = None \<longrightarrow>
      (\<exists>e. TakeStep w name ev ctx = Some (e, ctx) \<and> NextStep e = ''end'' \<and>
           Data e = [''output'' \<mapsto> missing_step_message name] \<and>
           missing_step_message name = ''There was an error while executing step '' @ name @
                                     '': the step does not exist'' \<and>
           sublist name (missing_step_message name))) \<and>
   (map_of (Steps w) name = Some step \<longrightarrow> TakeStep w name ev ctx = step ev ctx)"
  using missing_step_message_mentions [of name]
  by (auto simp: TakeStep_def NewBaseEvent_def missing_step_message_def)

theorem TakeStep_cases_witness:
  "(\<exists>e. TakeStep hello_workflow ''s9'' mock_event empty_ctx = Some (e, empty_ctx) \<and>
        NextStep e = ''end'' \<and>
        Data e ''output'' = Some ''There was an error while executing step s9: the step does not exist'') \<and>
   TakeStep hello_workflow ''s1'' mock_event empty_ctx = mockStep mock_event empty_ctx"
  using TakeStep_cases [of hello_workflow "''s9''" mock_event empty_ctx]
    TakeStep_cases [of hello_workflow "''s1''" mock_event empty_ctx mockStep]
  by (auto simp: hello_workflow_def NewBaseWorkflow_def missing_step_message_def)

text \<open>
  Claim C4. On an event whose next step is \<open>end\<close>, \<open>Output\<close> returns the value under the
  payload key \<open>output\<close> when there is one, and the string "No output produced" when
  there is none. On any other event it returns the string "Not an output step", whatever
  the payload holds.
\<close>

theorem Output_cases:
  "(NextStep ev = ''end'' \<longrightarrow> Data ev ''output'' = Some v \<longrightarrow> Output w ev ctx = AnyString v) \<and>
   (NextStep ev = ''end'' \<longrightarrow> Data ev ''output'' = None \<longrightarrow>
      Output w ev ctx = AnyString ''No output produced'') \<and>
   (NextStep ev \<noteq> ''end'' \<longrightarrow> Output w ev ctx = AnyString ''Not an output step'') \<and>
   (NextStep ev \<noteq> ''end'' \<longrightarrow> Output w (ev\<lparr>Data := d\<rparr>) ctx = Output w ev ctx)"
  by (simp add: Output_def Get_def)

theorem Output_cases_witness:
  "Output hello_workflow (NewBaseEvent ''end'' [''output'' \<mapsto> ''hello world'']) empty_ctx
     = AnyString ''hello world'' \<and>
   Output hello_workflow (NewBaseEvent ''end'' [''mock'' \<mapsto> ''event'']) empty_ctx
     = AnyString ''No output produced'' \<and>
   Output hello_workflow (NewBaseEvent ''s2'' [''output'' \<mapsto> ''hello world'']) empty_ctx
     = AnyString ''Not an output step''"
  using Output_cases [of "NewBaseEvent ''end'' [''output'' \<mapsto> ''hello world'']" "''hello world''"
      hello_workflow empty_ctx]
    Output_cases [of "NewBaseEvent ''end'' [''mock'' \<mapsto> ''event'']" _ hello_workflow empty_ctx]
    Output_cases [of "NewBaseEvent ''s2'' [''output'' \<mapsto> ''hello world'']" _ hello_workflow empty_ctx]
  by (simp add: NewBaseEvent_def)

text \<open>
  Claim C10. \<open>Output\<close> gives the same value on an event whatever the context is; it
  returns the value alone, so the context it is given stays as it is.
\<close>

theorem Output_ignores_context:
  "Output w ev c1 = Output w ev c2"
  by (simp add: Output_def)

theorem Output_ignores_context_witness:
  "Output hello_workflow (NewBaseEvent ''end'' [''output'' \<mapsto> ''hello world'']) empty_ctx
     = Output hello_workflow (NewBaseEvent ''end'' [''output'' \<mapsto> ''hello world''])
         (NewBaseContext None None, empty_heap(0 := [''k'' \<mapsto> AnyInt 1]))"
  using Output_ignores_context [of hello_workflow "NewBaseEvent ''end'' [''output'' \<mapsto> ''hello world'']"
      empty_ctx "(NewBaseContext None None, empty_heap(0 := [''k'' \<mapsto> AnyInt 1]))"]
  by simp


section \<open>Workflows: \<open>Run\<close>\<close>

text \<open>
  Claim C1, as stated, fails with a start callback that changes the event it is handed.
  On the workflow whose one step \<open>s1\<close> always returns the event naming \<open>end\<close> with the
  output "hello world", a start callback that, on its first call, sets \<open>NextStep\<close> of
  that event back to \<open>s1\<close> makes \<open>Run\<close> dispatch \<open>s1\<close> once more: the start callback is
  called twice and the end callback once, where the claim says once and never.
\<close>

theorem Run_restarting_callback_counterexample:
  "Run hello_workflow mock_event empty_ctx restartingStartCallBack endEventCallBack outputCallBack
     no_calls
     = Some (empty_ctx, ([''end'', ''end''], [''end''], [AnyString ''hello world'']))"
proof -
  have first: "TakeStep hello_workflow ''s1'' ev empty_ctx
      = Some (NewBaseEvent ''end'' [''output'' \<mapsto> ''hello world''], empty_ctx)" for ev
    by (simp add: TakeStep_def hello_workflow_def NewBaseWorkflow_def mockStep_def)
  have second: "Run_loop hello_workflow restartingStartCallBack endEventCallBack outputCallBack
      (NewBaseEvent ''end'' [''output'' \<mapsto> ''hello world'']) empty_ctx ([''end''], [''end''], [])
      = Some (empty_ctx, ([''end'', ''end''], [''end''], [AnyString ''hello world'']))"
    by (subst Run_loop.simps)
      (simp add: restartingStartCallBack_def outputCallBack_def NewBaseEvent_def Output_def Get_def)
  have "Run_loop hello_workflow restartingStartCallBack endEventCallBack outputCallBack
      (NewBaseEvent ''end'' [''output'' \<mapsto> ''hello world'']) empty_ctx no_calls
      = Some (empty_ctx, ([''end'', ''end''], [''end''], [AnyString ''hello world'']))"
    by (subst Run_loop.simps)
      (simp add: restartingStartCallBack_def endEventCallBack_def no_calls_def first
        second [unfolded NewBaseEvent_def] NewBaseEvent_def)
  then show ?thesis
    by (simp add: Run_def first hello_workflow_def [THEN arg_cong, of FirstStep] NewBaseWorkflow_def)
qed

text \<open>
  Claim C1, amended. With callbacks that only observe (each returns, and leaves the
  event and the context it is handed as they are): whenever \<open>Run\<close> returns, it has
  first dispatched the first step on the input event, and the events produced from
  there end with the one that names \<open>end\<close>; the caller's state is the result of the
  calls of \<open>callback_sequence\<close>, in their order: the start callback once on each
  produced event, the last included; the end callback once for each transition, on the
  event it produced, and none after the start call on the last event; the output
  callback once, on \<open>Output\<close> of the last event. With a first step \<open>s1\<close> that returns an
  event naming \<open>end\<close> with the output "hello world", the calls are one start and the
  output "hello world", and no end. With \<open>s1\<close> handing over to \<open>s2\<close> and \<open>s2\<close>
  returning an event naming \<open>end\<close>, they are a start, an end, a start, and the output.
\<close>

theorem Run_callback_order:
  "observes onS \<and> observes onE \<and> observes_output onO \<longrightarrow>
   (Run w inputEvent ctx onS onE onO obs = Some (ctx', obs') \<longrightarrow>
      (\<exists>ev1 cx1 ps. TakeStep w (FirstStep w) inputEvent ctx = Some (ev1, cx1) \<and>
         dispatches w ev1 cx1 ps ctx' \<and>
         obs' = foldl (perform onS onE onO) obs (callback_sequence w ps) \<and>
         start_events (callback_sequence w ps) = map fst ps \<and>
         end_events (callback_sequence w ps) = tl (map fst ps) \<and>
         outputs (callback_sequence w ps) = [Output w (fst (last ps)) ctx'] \<and>
         NextStep (fst (last ps)) = ''end'')) \<and>
   (FirstStep w = ''s1'' \<and> map_of (Steps w) ''s1'' = Some s1 \<and>
    s1 inputEvent ctx = Some (e1, c1) \<and> NextStep e1 = ''end'' \<and>
    Data e1 ''output'' = Some ''hello world'' \<longrightarrow>
      Run w inputEvent ctx onS onE onO obs =
        Some (c1, foldl (perform onS onE onO) obs
                    [OnEventStart e1 c1, OnOutput (AnyString ''hello world'') c1])) \<and>
   (FirstStep w = ''s1'' \<and> map_of (Steps w) ''s1'' = Some s1 \<and>
    map_of (Steps w) ''s2'' = Some s2 \<and>
    s1 inputEvent ctx = Some (e1, c1) \<and> NextStep e1 = ''s2'' \<and>
    s2 e1 c1 = Some (e2, c2) \<and> NextStep e2 = ''end'' \<longrightarrow>
      Run w inputEvent ctx onS onE onO obs =
        Some (c2, foldl (perform onS onE onO) obs
                    [OnEventStart e1 c1, OnEventEnd e2 c2, OnEventStart e2 c2,
                     OnOutput (Output w e2 c2) c2]))"
proof (intro conjI impI)
  assume obsv: "observes onS \<and> observes onE \<and> observes_output onO"
  assume run: "Run w inputEvent ctx onS onE onO obs = Some (ctx', obs')"
  then obtain ev1 cx1 where
    first: "TakeStep w (FirstStep w) inputEvent ctx = Some (ev1, cx1)" and
    loop: "Run_loop w onS onE onO ev1 cx1 obs = Some (ctx', obs')"
    by (auto simp: Run_def split: option.splits)
  from Run_loop_sound [OF loop] obsv obtain ps where
    d: "dispatches w ev1 cx1 ps ctx'" and
    o: "obs' = foldl (perform onS onE onO) obs (callback_sequence w ps)"
    by auto
  from d have ne: "ps \<noteq> []"
    using dispatches_first by blast
  have out: "outputs (callback_sequence w ps) = [Output w (fst (last ps)) ctx']"
    using callback_sequence_outputs [OF ne, of w] dispatches_last_ctx [OF d] by simp
  show "\<exists>ev1 cx1 ps. TakeStep w (FirstStep w) inputEvent ctx = Some (ev1, cx1) \<and>
         dispatches w ev1 cx1 ps ctx' \<and>
         obs' = foldl (perform onS onE onO) obs (callback_sequence w ps) \<and>
         start_events (callback_sequence w ps) = map fst ps \<and>
         end_events (callback_sequence w ps) = tl (map fst ps) \<and>
         outputs (callback_sequence w ps) = [Output w (fst (last ps)) ctx'] \<and>
         NextStep (fst (last ps)) = ''end''"
    using first d o callback_sequence_starts [of w ps] callback_sequence_ends [of w ps]
      out dispatches_last_end [OF d]
    by blast
next
  assume obsv: "observes onS \<and> observes onE \<and> observes_output onO"
  assume h: "FirstStep w = ''s1'' \<and> map_of (Steps w) ''s1'' = Some s1 \<and>
    s1 inputEvent ctx = Some (e1, c1) \<and> NextStep e1 = ''end'' \<and>
    Data e1 ''output'' = Some ''hello world''"
  then have first: "TakeStep w (FirstStep w) inputEvent ctx = Some (e1, c1)"
    by (simp add: TakeStep_def)
  have out: "Output w e1 c1 = AnyString ''hello world''"
    using h by (simp add: Output_def Get_def)
  have "dispatches w e1 c1 [(e1, c1)] c1"
    using h by simp
  from Run_loop_complete [OF obsv [THEN conjunct1] obsv [THEN conjunct2, THEN conjunct1]
      obsv [THEN conjunct2, THEN conjunct2] this, of obs] first out
  show "Run w inputEvent ctx onS onE onO obs =
        Some (c1, foldl (perform onS onE onO) obs
                    [OnEventStart e1 c1, OnOutput (AnyString ''hello world'') c1])"
    by (simp add: Run_def del: perform.simps)
next
  assume obsv: "observes onS \<and> observes onE \<and> observes_output onO"
  assume h: "FirstStep w = ''s1'' \<and> map_of (Steps w) ''s1'' = Some s1 \<and>
    map_of (Steps w) ''s2'' = Some s2 \<and>
    s1 inputEvent ctx = Some (e1, c1) \<and> NextStep e1 = ''s2'' \<and>
    s2 e1 c1 = Some (e2, c2) \<and> NextStep e2 = ''end''"
  then have first: "TakeStep w (FirstStep w) inputEvent ctx = Some (e1, c1)"
    by (simp add: TakeStep_def)
  have second: "TakeStep w (NextStep e1) e1 c1 = Some (e2, c2)"
    using h by (simp add: TakeStep_def)
  have "dispatches w e1 c1 [(e1, c1), (e2, c2)] c2"
    using h second by simp
  from Run_loop_complete [OF obsv [THEN conjunct1] obsv [THEN conjunct2, THEN conjunct1]
      obsv [THEN conjunct2, THEN conjunct2] this, of obs] first
  show "Run w inputEvent ctx onS onE onO obs =
        Some (c2, foldl (perform onS onE onO) obs
                    [OnEventStart e1 c1, OnEventEnd e2 c2, OnEventStart e2 c2,
                     OnOutput (Output w e2 c2) c2])"
    by (simp add: Run_def del: perform.simps)
qed

theorem Run_callback_order_witness:
  "observes startEventCallBack \<and> observes endEventCallBack \<and> observes_output outputCallBack \<and>
   Run hello_workflow mock_event empty_ctx startEventCallBack endEventCallBack outputCallBack no_calls
     = Some (empty_ctx, ([''end''], [], [AnyString ''hello world''])) \<and>
   Run chain_workflow mock_event empty_ctx startEventCallBack endEventCallBack outputCallBack no_calls
     = Some (empty_ctx, ([''s2'', ''end''], [''end''], [AnyString ''hello world''])) \<and>
   (\<exists>ev1 cx1 ps. TakeStep chain_workflow (FirstStep chain_workflow) mock_event empty_ctx = Some (ev1, cx1) \<and>
      dispatches chain_workflow ev1 cx1 ps empty_ctx \<and>
      start_events (callback_sequence chain_workflow ps) = map fst ps \<and>
      end_events (callback_sequence chain_workflow ps) = tl (map fst ps) \<and>
      outputs (callback_sequence chain_workflow ps) = [Output chain_workflow (fst (last ps)) empty_ctx] \<and>
      NextStep (fst (last ps)) = ''end'')"
proof -
  note obsv = recording_callbacks_observe
  have hello: "Run hello_workflow mock_event empty_ctx startEventCallBack endEventCallBack
      outputCallBack no_calls = Some (empty_ctx, ([''end''], [], [AnyString ''hello world'']))"
    using Run_callback_order [where w = hello_workflow and inputEvent = mock_event
        and ctx = empty_ctx and onS = startEventCallBack and onE = endEventCallBack
        and onO = outputCallBack and obs = no_calls and ?s1.0 = mockStep
        and ?e1.0 = "NewBaseEvent ''end'' [''output'' \<mapsto> ''hello world'']" and ?c1.0 = empty_ctx,
        THEN mp, OF obsv, THEN conjunct2, THEN conjunct1]
    by (simp add: hello_workflow_def NewBaseWorkflow_def mockStep_def NewBaseEvent_def
        startEventCallBack_def outputCallBack_def no_calls_def)
  have chain: "Run chain_workflow mock_event empty_ctx startEventCallBack endEventCallBack
      outputCallBack no_calls
      = Some (empty_ctx, ([''s2'', ''end''], [''end''], [AnyString ''hello world'']))"
    using Run_callback_order [where w = chain_workflow and inputEvent = mock_event
        and ctx = empty_ctx and onS = startEventCallBack and onE = endEventCallBack
        and onO = outputCallBack and obs = no_calls and ?s1.0 = toS2 and ?s2.0 = mockStep
        and ?e1.0 = "NewBaseEvent ''s2'' [''from'' \<mapsto> ''s1'']" and ?c1.0 = empty_ctx
        and ?e2.0 = "NewBaseEvent ''end'' [''output'' \<mapsto> ''hello world'']" and ?c2.0 = empty_ctx,
        THEN mp, OF obsv, THEN conjunct2, THEN conjunct2]
    by (simp add: chain_workflow_def NewBaseWorkflow_def mockStep_def toS2_def NewBaseEvent_def
        startEventCallBack_def endEventCallBack_def outputCallBack_def no_calls_def
        Output_def Get_def)
  from Run_callback_order [where w = chain_workflow and inputEvent = mock_event
        and ctx = empty_ctx and onS = startEventCallBack and onE = endEventCallBack
        and onO = outputCallBack and obs = no_calls and ctx' = empty_ctx
        and obs' = "([''s2'', ''end''], [''end''], [AnyString ''hello world''])",
        THEN mp, OF obsv, THEN conjunct1] chain
  have "\<exists>ev1 cx1 ps. TakeStep chain_workflow (FirstStep chain_workflow) mock_event empty_ctx = Some (ev1, cx1) \<and>
      dispatches chain_workflow ev1 cx1 ps empty_ctx \<and>
      start_events (callback_sequence chain_workflow ps) = map fst ps \<and>
      end_events (callback_sequence chain_workflow ps) = tl (map fst ps) \<and>
      outputs (callback_sequence chain_workflow ps) = [Output chain_workflow (fst (last ps)) empty_ctx] \<and>
      NextStep (fst (last ps)) = ''end''"
    by blast
  with hello chain obsv show ?thesis by blast
qed

text \<open>
  Claim C5, as stated, fails in both directions once a callback does more than observe.
  On the workflow whose one step names itself, no number of dispatches reaches an event
  naming \<open>end\<close>, yet \<open>Run\<close> returns when the start callback sets \<open>NextStep\<close> of the event
  it is handed to \<open>end\<close>. On the workflow whose first dispatch already gives an event
  naming \<open>end\<close>, \<open>Run\<close> does not return when the start callback is nil.
\<close>

theorem Run_ending_callback_counterexample:
  "Run loop_workflow mock_event empty_ctx endingStartCallBack endEventCallBack outputCallBack no_calls
     = Some (empty_ctx, ([''s1''], [], [AnyString ''No output produced''])) \<and>
   TakeStep loop_workflow (FirstStep loop_workflow) mock_event empty_ctx
     = Some (NewBaseEvent ''s1'' [''again'' \<mapsto> ''s1''], empty_ctx) \<and>
   \<not> (\<exists>n e c. dispatch_n loop_workflow n (NewBaseEvent ''s1'' [''again'' \<mapsto> ''s1'']) empty_ctx
               = Some (e, c) \<and> NextStep e = ''end'') \<and>
   Run hello_workflow mock_event empty_ctx nilCallBack endEventCallBack outputCallBack no_calls = None \<and>
   TakeStep hello_workflow (FirstStep hello_workflow) mock_event empty_ctx
     = Some (NewBaseEvent ''end'' [''output'' \<mapsto> ''hello world''], empty_ctx) \<and>
   dispatch_n hello_workflow 0 (NewBaseEvent ''end'' [''output'' \<mapsto> ''hello world'']) empty_ctx
     = Some (NewBaseEvent ''end'' [''output'' \<mapsto> ''hello world''], empty_ctx)"
proof -
  have first: "TakeStep loop_workflow (FirstStep loop_workflow) mock_event empty_ctx
     = Some (NewBaseEvent ''s1'' [''again'' \<mapsto> ''s1''], empty_ctx)"
    by (simp add: TakeStep_def loop_workflow_def NewBaseWorkflow_def loopStep_def)
  have "Run_loop loop_workflow endingStartCallBack endEventCallBack outputCallBack
      (NewBaseEvent ''s1'' [''again'' \<mapsto> ''s1'']) empty_ctx no_calls
      = Some (empty_ctx, ([''s1''], [], [AnyString ''No output produced'']))"
    by (subst Run_loop.simps)
      (simp add: endingStartCallBack_def outputCallBack_def no_calls_def NewBaseEvent_def
        Output_def Get_def)
  then have returns: "Run loop_workflow mock_event empty_ctx endingStartCallBack endEventCallBack
      outputCallBack no_calls = Some (empty_ctx, ([''s1''], [], [AnyString ''No output produced'']))"
    by (simp add: Run_def first)
  have hfirst: "TakeStep hello_workflow (FirstStep hello_workflow) mock_event empty_ctx
     = Some (NewBaseEvent ''end'' [''output'' \<mapsto> ''hello world''], empty_ctx)"
    by (simp add: TakeStep_def hello_workflow_def NewBaseWorkflow_def mockStep_def)
  have "Run_loop hello_workflow nilCallBack endEventCallBack outputCallBack
      (NewBaseEvent ''end'' [''output'' \<mapsto> ''hello world'']) empty_ctx no_calls = None"
    by (subst Run_loop.simps) (simp add: nilCallBack_def)
  then have stuck: "Run hello_workflow mock_event empty_ctx nilCallBack endEventCallBack
      outputCallBack no_calls = None"
    by (simp add: Run_def hfirst)
  from returns first loop_workflow_chain_never_ends [of empty_ctx] stuck hfirst
  show ?thesis by simp
qed

text \<open>
  Claim C5, amended. With callbacks that only observe (each returns, and leaves the
  event and the context it is handed as they are): \<open>Run\<close> returns exactly when the first
  dispatch returns an event and, for some number \<open>n\<close> of further dispatches, each on the
  event before, the event reached names \<open>end\<close>: no bound on \<open>n\<close> is built in, and no
  cycle is detected. On the workflow whose one step names itself as the next step,
  \<open>Run\<close> then does not return, whatever the input.
\<close>

theorem Run_returns_iff_end_reached:
  "observes onS \<and> observes onE \<and> observes_output onO \<longrightarrow>
   ((\<exists>r. Run w inputEvent ctx onS onE onO obs = Some r) =
     (\<exists>e1 c1 n e c. TakeStep w (FirstStep w) inputEvent ctx = Some (e1, c1) \<and>
        dispatch_n w n e1 c1 = Some (e, c) \<and> NextStep e = ''end'')) \<and>
   Run loop_workflow inputEvent ctx onS onE onO obs = None"
proof (intro impI conjI)
  assume obsv: "observes onS \<and> observes onE \<and> observes_output onO"
  then have oS: "observes onS" and oE: "observes onE" and oO: "observes_output onO"
    by simp_all
  show "(\<exists>r. Run w inputEvent ctx onS onE onO obs = Some r) =
     (\<exists>e1 c1 n e c. TakeStep w (FirstStep w) inputEvent ctx = Some (e1, c1) \<and>
        dispatch_n w n e1 c1 = Some (e, c) \<and> NextStep e = ''end'')"
    by (rule returns_iff_chain_ends [OF oS oE oO])
  show "Run loop_workflow inputEvent ctx onS onE onO obs = None"
    by (rule loop_workflow_never_returns [OF oS oE oO])
qed

theorem Run_returns_iff_end_reached_witness:
  "observes startEventCallBack \<and> observes endEventCallBack \<and> observes_output outputCallBack \<and>
   (\<exists>r. Run chain_workflow mock_event empty_ctx startEventCallBack endEventCallBack outputCallBack
      no_calls = Some r) \<and>
   Run loop_workflow mock_event empty_ctx startEventCallBack endEventCallBack outputCallBack
      no_calls = None"
proof -
  have "TakeStep chain_workflow (FirstStep chain_workflow) mock_event empty_ctx
      = Some (NewBaseEvent ''s2'' [''from'' \<mapsto> ''s1''], empty_ctx) \<and>
    dispatch_n chain_workflow (Suc 0) (NewBaseEvent ''s2'' [''from'' \<mapsto> ''s1'']) empty_ctx
      = Some (NewBaseEvent ''end'' [''output'' \<mapsto> ''hello world''], empty_ctx) \<and>
    NextStep (NewBaseEvent ''end'' [''output'' \<mapsto> ''hello world'']) = ''end''"
    by (simp add: chain_workflow_def NewBaseWorkflow_def TakeStep_def toS2_def mockStep_def
        NewBaseEvent_def)
  then have "\<exists>e1 c1 n e c.
      TakeStep chain_workflow (FirstStep chain_workflow) mock_event empty_ctx = Some (e1, c1) \<and>
      dispatch_n chain_workflow n e1 c1 = Some (e, c) \<and> NextStep e = ''end''"
    by blast
  with Run_returns_iff_end_reached [of startEventCallBack endEventCallBack outputCallBack
      chain_workflow mock_event empty_ctx no_calls, THEN mp, OF recording_callbacks_observe]
    recording_callbacks_observe
  show ?thesis by simp
qed

end
